theory Spec2Isabelle
  imports Complex_Main "HOL-Library.Multiset" "HOL-Library.Char_ord" "HOL-Library.List_Lexorder"
    "HOL-Library.Product_Lexorder"
begin

section \<open>Errors raised by the script\<close>

text \<open>
  The exceptions that the helpers of \<^verbatim>\<open>scripts/build_data.py\<close> can raise:
  \<^verbatim>\<open>date(year, month, day)\<close> and \<^verbatim>\<open>datetime.strptime\<close> raise ValueError,
  \<^verbatim>\<open>date + timedelta\<close> raises OverflowError when it leaves the years 1..9999.
\<close>

datatype error = ValueError | OverflowError

section \<open>Decimal strings\<close>

definition digit_char :: "nat \<Rightarrow> char" where
  "digit_char n = char_of (48 + n)"

fun str_nat :: "nat \<Rightarrow> string" where
  "str_nat n = (if n < 10 then [digit_char n] else str_nat (n div 10) @ [digit_char (n mod 10)])"

declare str_nat.simps [simp del]

definition py_str :: "int \<Rightarrow> string" where
  \<comment> \<open>Python's \<^verbatim>\<open>str(n)\<close> on an int.\<close>
  "py_str n = (if n < 0 then CHR ''-'' # str_nat (nat (- n)) else str_nat (nat n))"

definition last2 :: "string \<Rightarrow> string" where
  \<comment> \<open>The slice \<^verbatim>\<open>s[-2:]\<close>: the whole string when it has fewer than two characters.\<close>
  "last2 s = drop (length s - 2) s"

definition zfill :: "nat \<Rightarrow> string \<Rightarrow> string" where
  "zfill w s = replicate (w - length s) CHR ''0'' @ s"

section \<open>Calendar dates\<close>

text \<open>
  A \<^verbatim>\<open>datetime.date\<close> is a year, a month and a day of the proleptic Gregorian
  calendar; the constructor accepts the years 1 to 9999 only.
\<close>

record date =
  year :: int
  month :: int
  day :: int

definition is_leap :: "int \<Rightarrow> bool" where
  "is_leap y = (y mod 4 = 0 \<and> (y mod 100 \<noteq> 0 \<or> y mod 400 = 0))"

definition days_in_month :: "int \<Rightarrow> int \<Rightarrow> int" where
  "days_in_month y m =
     (if m = 2 then (if is_leap y then 29 else 28)
      else if m = 4 \<or> m = 6 \<or> m = 9 \<or> m = 11 then 30 else 31)"

definition valid_date :: "date \<Rightarrow> bool" where
  "valid_date d = (1 \<le> year d \<and> year d \<le> 9999 \<and> 1 \<le> month d \<and> month d \<le> 12
                   \<and> 1 \<le> day d \<and> day d \<le> days_in_month (year d) (month d))"

definition mk_date :: "int \<Rightarrow> int \<Rightarrow> int \<Rightarrow> error + date" where
  \<comment> \<open>The constructor \<^verbatim>\<open>date(y, m, d)\<close>.\<close>
  "mk_date y m d =
     (if valid_date \<lparr>year = y, month = m, day = d\<rparr>
      then Inr \<lparr>year = y, month = m, day = d\<rparr> else Inl ValueError)"

definition days_before_year :: "int \<Rightarrow> int" where
  "days_before_year y = (y - 1) * 365 + (y - 1) div 4 - (y - 1) div 100 + (y - 1) div 400"

definition days_before_month :: "int \<Rightarrow> int \<Rightarrow> int" where
  \<comment> \<open>The table \<^verbatim>\<open>_DAYS_BEFORE_MONTH\<close> of the datetime module, plus the leap day.\<close>
  "days_before_month y m =
     [0, 31, 59, 90, 120, 151, 181, 212, 243, 273, 304, 334] ! nat (m - 1)
     + (if 2 < m \<and> is_leap y then 1 else 0)"

definition toordinal :: "date \<Rightarrow> int" where
  "toordinal d = days_before_year (year d) + days_before_month (year d) (month d) + day d"

definition weekday :: "date \<Rightarrow> int" where
  \<comment> \<open>Monday is 0, Sunday is 6.\<close>
  "weekday d = (toordinal d + 6) mod 7"

definition date_le :: "date \<Rightarrow> date \<Rightarrow> bool" where
  "date_le a b =
     (year a < year b \<or>
      (year a = year b \<and> (month a < month b \<or> (month a = month b \<and> day a \<le> day b))))"

definition next_day :: "date \<Rightarrow> error + date" where
  "next_day d =
     (if day d < days_in_month (year d) (month d) then Inr (d\<lparr>day := day d + 1\<rparr>)
      else if month d < 12 then Inr (d\<lparr>month := month d + 1, day := 1\<rparr>)
      else if year d < 9999 then Inr \<lparr>year = year d + 1, month = 1, day = 1\<rparr>
      else Inl OverflowError)"

definition prev_day :: "date \<Rightarrow> error + date" where
  \<comment> \<open>\<^verbatim>\<open>d - timedelta(days=1)\<close>\<close>
  "prev_day d =
     (if 1 < day d then Inr (d\<lparr>day := day d - 1\<rparr>)
      else if 1 < month d
        then Inr (d\<lparr>month := month d - 1, day := days_in_month (year d) (month d - 1)\<rparr>)
      else if 1 < year d then Inr \<lparr>year = year d - 1, month = 12, day = 31\<rparr>
      else Inl OverflowError)"

fun add_days :: "date \<Rightarrow> nat \<Rightarrow> error + date" where
  \<comment> \<open>\<^verbatim>\<open>d + timedelta(days=n)\<close> for a count \<open>n\<close> that is not negative.\<close>
  "add_days d 0 = Inr d"
| "add_days d (Suc n) = (case next_day d of Inl e \<Rightarrow> Inl e | Inr d' \<Rightarrow> add_days d' n)"

definition isoformat :: "date \<Rightarrow> string" where
  "isoformat d = zfill 4 (py_str (year d)) @ ''-'' @ zfill 2 (py_str (month d))
                 @ ''-'' @ zfill 2 (py_str (day d))"

section \<open>Season classifier\<close>

definition first_sunday :: "int \<Rightarrow> int \<Rightarrow> error + date" where
  "first_sunday y m =
     (case mk_date y m 1 of
        Inl e \<Rightarrow> Inl e
      | Inr d \<Rightarrow> (let days_until_sun = (6 - weekday d) mod 7 in add_days d (nat days_until_sun)))"

record season =
  season_type :: string
  season_label :: string
  season_start :: string

definition season_for :: "date \<Rightarrow> error + season" where
  "season_for d =
     (case first_sunday (year d) 4 of
        Inl e \<Rightarrow> Inl e
      | Inr apr_start \<Rightarrow>
     (case first_sunday (year d) 10 of
        Inl e \<Rightarrow> Inl e
      | Inr oct_start \<Rightarrow>
        if date_le oct_start d then
          Inr \<lparr>season_type = ''Summer'',
               season_label = ''Summer '' @ py_str (year d) @ ''-'' @ last2 (py_str (year d + 1)),
               season_start = isoformat oct_start\<rparr>
        else if date_le apr_start d then
          Inr \<lparr>season_type = ''Winter'',
               season_label = ''Winter '' @ py_str (year d),
               season_start = isoformat apr_start\<rparr>
        else
          (case first_sunday (year d - 1) 10 of
             Inl e \<Rightarrow> Inl e
           | Inr prev_oct_start \<Rightarrow>
               Inr \<lparr>season_type = ''Summer'',
                    season_label = ''Summer '' @ py_str (year d - 1) @ ''-'' @ last2 (py_str (year d)),
                    season_start = isoformat prev_oct_start\<rparr>)))"


section \<open>Configuration\<close>

definition TRACKED_PLAYERS :: "string set" where
  "TRACKED_PLAYERS = {''Armygeddon'', ''Jobby'', ''Miza'', ''Bucis'', ''Youare22''}"

definition ALIASES :: "string \<rightharpoonup> string" where
  "ALIASES = [''Misa'' \<mapsto> ''Miza'']"

definition HANDICAP_MIN_ROUNDS :: nat where "HANDICAP_MIN_ROUNDS = 5"
definition HANDICAP_WINDOW :: nat where "HANDICAP_WINDOW = 20"
definition HANDICAP_BEST :: nat where "HANDICAP_BEST = 8"
definition HANDICAP_POINTS_PER_STROKE :: rat where "HANDICAP_POINTS_PER_STROKE = 10"
definition HANDICAP_CAP :: rat where "HANDICAP_CAP = 6"
definition BEST10_COUNT :: nat where "BEST10_COUNT = 10"

section \<open>Helpers\<close>

text \<open>
  Numbers are exact rationals: the model follows the arithmetic the script writes down, not
  the rounding of binary floating point. A \<^verbatim>\<open>datetime\<close> built by the format
  \<^verbatim>\<open>%Y-%m-%d %H%M\<close> has a date, an hour and a minute; its seconds are zero.
\<close>

record datetime =
  dt_date :: date
  hour :: int
  minute :: int

definition dt_key :: "datetime \<Rightarrow> int \<times> int \<times> int \<times> int \<times> int" where
  \<comment> \<open>Datetimes compare field by field, the year first.\<close>
  "dt_key t = (year (dt_date t), month (dt_date t), day (dt_date t), hour t, minute t)"

definition dt_isoformat :: "datetime \<Rightarrow> string" where
  "dt_isoformat t = isoformat (dt_date t) @ ''T'' @ zfill 2 (py_str (hour t)) @ '':''
                    @ zfill 2 (py_str (minute t)) @ '':00''"

definition is_space :: "char \<Rightarrow> bool" where
  \<comment> \<open>The ASCII characters that \<^verbatim>\<open>str.strip()\<close> removes.\<close>
  "is_space c = (c \<in> {CHR 0x09, CHR 0x0A, CHR 0x0B, CHR 0x0C, CHR 0x0D,
                        CHR 0x1C, CHR 0x1D, CHR 0x1E, CHR 0x1F, CHR 0x20})"

definition strip :: "string \<Rightarrow> string" where
  "strip s = rev (dropWhile is_space (rev (dropWhile is_space s)))"

text \<open>
  A cell of the table read from the CSV file: a number, a text that does not read as a
  number, or a missing value (NaN). A text that reads as a number is the number.
\<close>

datatype cell = Num rat | Text string | NA

definition isna :: "cell \<Rightarrow> bool" where
  "isna c = (c = NA)"

definition to_numeric :: "cell \<Rightarrow> rat option" where
  \<comment> \<open>\<^verbatim>\<open>pd.to_numeric(..., errors="coerce")\<close> on one cell: None is NaN.\<close>
  "to_numeric c = (case c of Num x \<Rightarrow> Some x | Text s \<Rightarrow> None | NA \<Rightarrow> None)"

definition safe_float :: "cell \<Rightarrow> rat option" where
  \<comment> \<open>Missing gives None; \<^verbatim>\<open>float(x)\<close> raises on a text, and the handler gives None.\<close>
  "safe_float x = (if isna x then None else (case x of Num v \<Rightarrow> Some v | _ \<Rightarrow> None))"

definition safe_float_num :: "rat option \<Rightarrow> rat option" where
  \<comment> \<open>\<^verbatim>\<open>safe_float\<close> on a value of a numeric column, where None is NaN.\<close>
  "safe_float_num x = (case x of None \<Rightarrow> None | Some v \<Rightarrow> Some v)"

definition py_round :: "rat \<Rightarrow> int" where
  \<comment> \<open>Python's one-argument \<^verbatim>\<open>round\<close>: to the nearest integer, a tie to the even one.\<close>
  "py_round x =
     (let f = \<lfloor>x\<rfloor>; r = x - of_int f
      in if r < 1 / 2 then f else if 1 / 2 < r then f + 1 else if even f then f else f + 1)"

definition round_half :: "rat \<Rightarrow> rat" where
  "round_half x = of_int (py_round (x * 2)) / 2"

text \<open>
  What the interpreter and the libraries supply: the parser behind
  \<^verbatim>\<open>datetime.strptime(s, "%Y-%m-%d %H%M")\<close> (None when it raises ValueError), the
  built-in \<^verbatim>\<open>hash\<close> on strings, which is salted anew in each interpreter process, and
  the text \<^verbatim>\<open>astype(str)\<close> gives for a cell.
\<close>

record env =
  strptime :: "string \<Rightarrow> datetime option"
  py_hash :: "string \<Rightarrow> int"
  astype_str :: "cell \<Rightarrow> string"

definition parse_udisc_dt :: "env \<Rightarrow> string \<Rightarrow> error + datetime" where
  "parse_udisc_dt E s =
     (case strptime E (strip s) of None \<Rightarrow> Inl ValueError | Some t \<Rightarrow> Inr t)"

section \<open>The rows of the table\<close>

record rawrow =
  PlayerName :: string
  CourseName :: string
  LayoutName :: string
  StartDate :: string
  EndDate :: string
  Total :: cell
  RoundRating :: cell
  PlusMinus :: string
  Hole :: "nat \<Rightarrow> cell"

text \<open>A row of the data frame once \<^verbatim>\<open>main\<close> has added its columns.\<close>

record nrow =
  row :: rawrow
  StartDT :: datetime
  EndDT :: datetime
  RoundRatingNum :: "rat option"
  IsRated :: bool
  RoundDate :: date
  SeasonType :: string
  SeasonLabel :: string
  CourseKey :: string
  RoundId :: string

fun traverse :: "('a \<Rightarrow> error + 'b) \<Rightarrow> 'a list \<Rightarrow> error + 'b list" where
  \<comment> \<open>\<^verbatim>\<open>Series.apply\<close> with a function that may raise: the first exception ends the run.\<close>
  "traverse f [] = Inr []"
| "traverse f (x # xs) =
     (case f x of
        Inl e \<Rightarrow> Inl e
      | Inr y \<Rightarrow> (case traverse f xs of Inl e \<Rightarrow> Inl e | Inr ys \<Rightarrow> Inr (y # ys)))"

definition canon_name :: "string \<Rightarrow> string" where
  "canon_name n = (let s = strip n in case ALIASES s of None \<Rightarrow> s | Some a \<Rightarrow> a)"

definition has_all_18 :: "rawrow \<Rightarrow> bool" where
  "has_all_18 r = (\<not> list_ex (\<lambda>i. isna (Hole r i)) [1..<19])"

definition has_extra :: "rawrow \<Rightarrow> bool" where
  "has_extra r = list_ex (\<lambda>i. \<not> isna (Hole r i)) [19..<28]"

definition full_18_only :: "rawrow \<Rightarrow> bool" where
  "full_18_only r = (has_all_18 r \<and> \<not> has_extra r)"

definition course_key :: "rawrow \<Rightarrow> string" where
  \<comment> \<open>The separator is a space, an em dash (three bytes in UTF-8) and a space.\<close>
  "course_key r = strip (CourseName r) @ [CHR 0x20, CHR 0xE2, CHR 0x80, CHR 0x94, CHR 0x20]
                  @ strip (LayoutName r)"

definition round_id :: "env \<Rightarrow> rawrow \<Rightarrow> string" where
  "round_id E r =
     py_str (abs (py_hash E (PlayerName r @ ''|'' @ course_key r @ ''|'' @ StartDate r
                             @ ''|'' @ astype_str E (Total r))))"

definition parse_row :: "env \<Rightarrow> rawrow \<Rightarrow> error + rawrow \<times> datetime \<times> datetime" where
  "parse_row E r =
     (case parse_udisc_dt E (StartDate r) of
        Inl e \<Rightarrow> Inl e
      | Inr s \<Rightarrow> (case parse_udisc_dt E (EndDate r) of
                    Inl e \<Rightarrow> Inl e
                  | Inr t \<Rightarrow> Inr (r, s, t)))"

definition tag_row :: "env \<Rightarrow> rawrow \<times> datetime \<times> datetime \<Rightarrow> error + nrow" where
  "tag_row E x =
     (case x of (r, s, t) \<Rightarrow>
        (case season_for (dt_date s) of
           Inl e \<Rightarrow> Inl e
         | Inr m \<Rightarrow>
             Inr \<lparr>row = r, StartDT = s, EndDT = t,
                  RoundRatingNum = to_numeric (RoundRating r),
                  IsRated = (to_numeric (RoundRating r) \<noteq> None),
                  RoundDate = dt_date s,
                  SeasonType = season_type m,
                  SeasonLabel = season_label m,
                  CourseKey = course_key r,
                  RoundId = round_id E r\<rparr>))"

definition normalize :: "env \<Rightarrow> rawrow list \<Rightarrow> error + nrow list" where
  \<comment> \<open>The data frame \<^verbatim>\<open>df\<close> of \<^verbatim>\<open>main\<close> before the first output is built.\<close>
  "normalize E rows =
     (let named = map (\<lambda>r. r\<lparr>PlayerName := canon_name (PlayerName r)\<rparr>) rows
      in case traverse (parse_row E) named of
           Inl e \<Rightarrow> Inl e
         | Inr parsed \<Rightarrow>
             traverse (tag_row E)
               (filter (\<lambda>(r, s, t). PlayerName r \<in> TRACKED_PLAYERS \<and> full_18_only r) parsed))"


section \<open>Outputs\<close>

record round_rec =
  r_round_id :: string
  r_player :: string
  r_course :: string
  r_layout :: string
  r_course_key :: string
  r_start :: string
  r_end :: string
  r_total :: "rat option"
  r_plus_minus :: string
  r_rating :: "rat option"
  r_is_rated :: bool
  r_season_type :: string
  r_season_label :: string

definition round_of :: "nrow \<Rightarrow> round_rec" where
  "round_of r =
     \<lparr>r_round_id = RoundId r,
      r_player = PlayerName (row r),
      r_course = strip (CourseName (row r)),
      r_layout = strip (LayoutName (row r)),
      r_course_key = CourseKey r,
      r_start = dt_isoformat (StartDT r),
      r_end = dt_isoformat (EndDT r),
      r_total = safe_float (Total (row r)),
      r_plus_minus = PlusMinus (row r),
      r_rating = safe_float_num (RoundRatingNum r),
      r_is_rated = IsRated r,
      r_season_type = SeasonType r,
      r_season_label = SeasonLabel r\<rparr>"

definition rounds :: "nrow list \<Rightarrow> round_rec list" where
  \<comment> \<open>Rows in the order of \<^verbatim>\<open>sort_values("StartDT")\<close>, equal keys in input order.\<close>
  "rounds df = map round_of (sort_key (\<lambda>r. dt_key (StartDT r)) df)"

definition rated_df :: "nrow list \<Rightarrow> nrow list" where
  "rated_df df = filter IsRated df"

definition group_keys :: "('a \<Rightarrow> 'k::linorder) \<Rightarrow> 'a list \<Rightarrow> 'k list" where
  \<comment> \<open>\<^verbatim>\<open>groupby\<close> visits the distinct keys in ascending order.\<close>
  "group_keys f xs = sort (remdups (map f xs))"

definition dropna :: "'a option list \<Rightarrow> 'a list" where
  "dropna xs = List.map_filter id xs"

definition sorted_desc :: "rat list \<Rightarrow> rat list" where
  \<comment> \<open>\<^verbatim>\<open>sorted(xs, reverse=True)\<close>\<close>
  "sorted_desc xs = rev (sort xs)"

record ladder_entry =
  l_season_label :: string
  l_player :: string
  season_total_best10 :: "rat option"
  rated_rounds_in_season :: nat
  counted_rounds :: nat
  best_round_rating :: "rat option"

definition ladder_of :: "string \<times> string \<Rightarrow> nrow list \<Rightarrow> ladder_entry" where
  "ladder_of k g =
     (let ratings = sorted_desc (dropna (map RoundRatingNum g));
          top10 = take BEST10_COUNT ratings
      in \<lparr>l_season_label = fst k,
          l_player = snd k,
          season_total_best10 = (if top10 \<noteq> [] then Some (sum_list top10) else None),
          rated_rounds_in_season = length ratings,
          counted_rounds = length top10,
          best_round_rating = (if ratings \<noteq> [] then Some (Max (set ratings)) else None)\<rparr>)"

definition ladder_key :: "nrow \<Rightarrow> string \<times> string" where
  "ladder_key r = (SeasonLabel r, PlayerName (row r))"

definition ladders :: "nrow list \<Rightarrow> ladder_entry list" where
  "ladders df =
     map (\<lambda>k. ladder_of k (filter (\<lambda>r. ladder_key r = k) (rated_df df)))
       (group_keys ladder_key (rated_df df))"

definition last20 :: "nrow list \<Rightarrow> nrow list" where
  \<comment> \<open>\<^verbatim>\<open>g.sort_values("StartDT", ascending=False).head(HANDICAP_WINDOW)\<close>: the latest
      start first, rows with equal starts in the order of the input.\<close>
  "last20 g = take HANDICAP_WINDOW (rev (sort_key (\<lambda>r. dt_key (StartDT r)) (rev g)))"

definition form_of :: "nrow list \<Rightarrow> rat option" where
  \<comment> \<open>The body of the loop over the players' groups: the value stored in \<^verbatim>\<open>player_form\<close>.\<close>
  "form_of g =
     (let ratings = dropna (map RoundRatingNum (last20 g))
      in if length ratings < HANDICAP_MIN_ROUNDS then None
         else (let best8 = take HANDICAP_BEST (sorted_desc ratings)
               in Some (sum_list best8 / of_nat (length best8))))"

definition player_form :: "nrow list \<Rightarrow> (string \<times> rat option) list" where
  \<comment> \<open>The dictionary \<^verbatim>\<open>player_form\<close>, in insertion order.\<close>
  "player_form df =
     map (\<lambda>p. (p, form_of (filter (\<lambda>r. PlayerName (row r) = p) (rated_df df))))
       (group_keys (\<lambda>r. PlayerName (row r)) (rated_df df))"

definition reference :: "nrow list \<Rightarrow> rat option" where
  "reference df =
     (let eligible_forms = dropna (map snd (player_form df))
      in if eligible_forms \<noteq> [] then Some (sum_list eligible_forms / of_nat (length eligible_forms))
         else None)"

definition method_text :: string where
  \<comment> \<open>The format \<^verbatim>\<open>:g\<close> prints 10.0 as 10.\<close>
  "method_text = ''best '' @ py_str (int HANDICAP_BEST) @ '' of last '' @ py_str (int HANDICAP_WINDOW)
                 @ '' rated rounds; '' @ ''10'' @ '' pts = 1 stroke''"

record handicap_entry =
  h_player :: string
  handicap :: "rat option"
  form_index :: "rat option"
  reference_rating :: "rat option"
  h_method :: string
  status :: string

definition handicap_of :: "nrow list \<Rightarrow> string \<Rightarrow> handicap_entry" where
  \<comment> \<open>The body of the loop over \<^verbatim>\<open>sorted(TRACKED_PLAYERS)\<close>.\<close>
  "handicap_of df player =
     (let form = (case map_of (player_form df) player of None \<Rightarrow> None | Some v \<Rightarrow> v)
      in case (reference df, form) of
           (Some ref, Some fi) \<Rightarrow>
             (let raw = (ref - fi) / HANDICAP_POINTS_PER_STROKE;
                  h = round_half raw;
                  h' = max (- HANDICAP_CAP) (min HANDICAP_CAP h)
              in \<lparr>h_player = player, handicap = Some h', form_index = Some fi,
                  reference_rating = Some ref, h_method = method_text, status = ''OK''\<rparr>)
         | _ \<Rightarrow>
             \<lparr>h_player = player, handicap = None, form_index = form,
              reference_rating = reference df, h_method = method_text,
              status = ''No handicap yet (insufficient rated rounds)''\<rparr>)"

definition handicaps :: "nrow list \<Rightarrow> handicap_entry list" where
  "handicaps df = map (handicap_of df) (sorted_list_of_set TRACKED_PLAYERS)"

section \<open>Auxiliary notions used in the statements\<close>

definition sunday_offset :: "int \<Rightarrow> int \<Rightarrow> int" where
  \<comment> \<open>The number of days from the 1st of the month to its first Sunday.\<close>
  "sunday_offset y m = (6 - weekday \<lparr>year = y, month = m, day = 1\<rparr>) mod 7"

definition summer_of :: "int \<Rightarrow> string \<Rightarrow> season" where
  \<comment> \<open>The Summer season that begins in October of year \<open>y\<close>.\<close>
  "summer_of y start = \<lparr>season_type = ''Summer'',
      season_label = ''Summer '' @ py_str y @ ''-'' @ last2 (py_str (y + 1)), season_start = start\<rparr>"

definition winter_of :: "int \<Rightarrow> string \<Rightarrow> season" where
  "winter_of y start = \<lparr>season_type = ''Winter'',
      season_label = ''Winter '' @ py_str y, season_start = start\<rparr>"

definition same_but_rating :: "rawrow \<Rightarrow> rawrow \<Rightarrow> bool" where
  \<comment> \<open>Two rows that agree on every column except the rating.\<close>
  "same_but_rating r r' = (\<exists>v. r' = r\<lparr>RoundRating := v\<rparr>)"

definition group_rows :: "nrow list \<Rightarrow> string \<times> string \<Rightarrow> nrow list" where
  \<comment> \<open>The group \<^verbatim>\<open>g\<close> that \<^verbatim>\<open>rated_df.groupby(["SeasonLabel", "PlayerName"])\<close> gives for a key.\<close>
  "group_rows df k = filter (\<lambda>r. ladder_key r = k) (rated_df df)"

definition group_ratings :: "nrow list \<Rightarrow> string \<times> string \<Rightarrow> rat list" where
  \<comment> \<open>The ratings of a group, before they are sorted.\<close>
  "group_ratings df k = dropna (map RoundRatingNum (group_rows df k))"

section \<open>Sample data for the worked instances\<close>

definition sample_holes :: "nat \<Rightarrow> cell" where
  \<comment> \<open>A complete card: a score of 3 on the holes 1 to 18 and nothing beyond.\<close>
  "sample_holes i = (if 1 \<le> i \<and> i \<le> 18 then Num 3 else NA)"

definition sample_row :: "string \<Rightarrow> string \<Rightarrow> cell \<Rightarrow> rawrow" where
  "sample_row p start rating =
     \<lparr>PlayerName = p, CourseName = ''Park'', LayoutName = ''Main'', StartDate = start,
      EndDate = start, Total = Num 54, RoundRating = rating, PlusMinus = ''0'',
      Hole = sample_holes\<rparr>"

definition sample_nrow :: "string \<Rightarrow> int \<Rightarrow> rat \<Rightarrow> nrow" where
  \<comment> \<open>A rated row of the data frame, played on 22 December 2025 at the given minute past 03:00.\<close>
  "sample_nrow p m x =
     \<lparr>row = sample_row p ''2025-12-22 0300'' (Num x),
      StartDT = \<lparr>dt_date = \<lparr>year = 2025, month = 12, day = 22\<rparr>, hour = 3, minute = m\<rparr>,
      EndDT = \<lparr>dt_date = \<lparr>year = 2025, month = 12, day = 22\<rparr>, hour = 5, minute = m\<rparr>,
      RoundRatingNum = Some x, IsRated = True,
      RoundDate = \<lparr>year = 2025, month = 12, day = 22\<rparr>,
      SeasonType = ''Summer'', SeasonLabel = ''Summer 2025-26'',
      CourseKey = course_key (sample_row p ''2025-12-22 0300'' (Num x)),
      RoundId = ''0''\<rparr>"

definition sample_df :: "nrow list" where
  \<comment> \<open>Five rated rounds of 1000 for one player and five of 700 for another.\<close>
  "sample_df = map (\<lambda>m. sample_nrow ''Miza'' m 1000) [1, 2, 3, 4, 5]
             @ map (\<lambda>m. sample_nrow ''Jobby'' m 700) [1, 2, 3, 4, 5]"

definition sample_env :: env where
  \<comment> \<open>An interpreter whose parser is given on the one start time of the sample rows.\<close>
  "sample_env =
     \<lparr>strptime = (\<lambda>s. if s = ''2025-12-22 0300''
                       then Some \<lparr>dt_date = \<lparr>year = 2025, month = 12, day = 22\<rparr>, hour = 3, minute = 0\<rparr>
                       else None),
      py_hash = (\<lambda>s. int (length s)),
      astype_str = (\<lambda>c. case c of Num x \<Rightarrow> py_str \<lfloor>x\<rfloor> | Text s \<Rightarrow> s | NA \<Rightarrow> ''nan'')\<rparr>"

definition sample_raw :: "rawrow list" where
  \<comment> \<open>A complete rated card under an alias, a card with a 19th hole, a card without its 7th
      hole, a complete card whose rating is not a number, and a card of an untracked player.\<close>
  "sample_raw =
     [sample_row ''Misa'' ''2025-12-22 0300'' (Num 900),
      (sample_row ''Miza'' ''2025-12-22 0300'' (Num 950))\<lparr>Hole := sample_holes(19 := Num 3)\<rparr>,
      (sample_row ''Miza'' ''2025-12-22 0300'' (Num 960))\<lparr>Hole := sample_holes(7 := NA)\<rparr>,
      sample_row ''Jobby'' ''2025-12-22 0300'' (Text ''n/a''),
      sample_row ''Stranger'' ''2025-12-22 0300'' (Num 800)]"

definition window_ratings :: "nrow list \<Rightarrow> string \<Rightarrow> rat list" where
  \<comment> \<open>The ratings in the rolling window of a player: the list \<^verbatim>\<open>ratings\<close> of the loop
      over the players' groups.\<close>
  "window_ratings df p =
     dropna (map RoundRatingNum (last20 (filter (\<lambda>r. PlayerName (row r) = p) (rated_df df))))"

definition sample_season :: "nrow list" where
  \<comment> \<open>Twelve rated rounds of one player in one season, with the ratings 1 to 12.\<close>
  "sample_season = map (\<lambda>m. sample_nrow ''Miza'' m (of_int m)) [5, 12, 1, 9, 3, 11, 7, 2, 10, 4, 8, 6]"

section \<open>Properties of the helpers\<close>

subsection \<open>Rounding to halves\<close>

lemma py_round_tie: "py_round (of_int k + 1 / 2) = (if even k then k else k + 1)"
proof -
  have f: "\<lfloor>(of_int k :: rat) + 1 / 2\<rfloor> = k" by linarith
  show ?thesis by (simp add: py_round_def f Let_def)
qed

lemma round_half_tie:
  "round_half ((2 * of_int k + 1) / 4) = of_int (if even k then k else k + 1) / 2"
proof -
  have h: "(2 * of_int k + 1) / 4 * 2 = (of_int k :: rat) + 1 / 2" by (simp add: field_simps)
  show ?thesis unfolding round_half_def h py_round_tie ..
qed

lemma tie_dist:
  "\<bar>of_int (if even k then k else k + 1) / 2 - (2 * of_int k + 1) / 4\<bar> = (1 / 4 :: rat)"
proof (cases "even k")
  case True
  have "of_int k / 2 - (2 * of_int k + 1) / 4 = (- (1 / 4) :: rat)" by (simp add: field_simps)
  then show ?thesis using True by simp
next
  case False
  have "of_int (k + 1) / 2 - (2 * of_int k + 1) / 4 = (1 / 4 :: rat)" by (simp add: field_simps)
  then show ?thesis using False by simp
qed

text \<open>
  Claim C10. \<^verbatim>\<open>round_half\<close> resolves exact ties to the even side: a value that is an odd
  multiple of a quarter, \<open>(2k + 1) / 4\<close>, is sent to \<open>m / 2\<close> with \<open>m\<close> even, a quarter away
  from it; so a quarter goes to 0 and three quarters go to 1, where rounding away from zero
  would give a half for the first.
\<close>

theorem round_half_ties_to_even:
  "(\<exists>m. even m \<and> round_half ((2 * of_int k + 1) / 4) = of_int m / 2
        \<and> \<bar>of_int m / 2 - (2 * of_int k + 1) / 4\<bar> = (1 / 4 :: rat))
   \<and> round_half (1 / 4) = 0 \<and> round_half (3 / 4) = 1"
proof (intro conjI)
  show "\<exists>m. even m \<and> round_half ((2 * of_int k + 1) / 4) = of_int m / 2
        \<and> \<bar>of_int m / 2 - (2 * of_int k + 1) / 4\<bar> = (1 / 4 :: rat)"
  proof (intro exI conjI)
    show "even (if even k then k else k + 1)" by simp
    show "round_half ((2 * of_int k + 1) / 4) = of_int (if even k then k else k + 1) / 2"
      by (rule round_half_tie)
    show "\<bar>of_int (if even k then k else k + 1) / 2 - (2 * of_int k + 1) / 4\<bar> = (1 / 4 :: rat)"
      by (rule tie_dist)
  qed
  show "round_half (1 / 4) = 0" by code_simp
  show "round_half (3 / 4) = 1" by code_simp
qed

subsection \<open>The handicap entries\<close>

lemma clamp_half:
  "max (- 6) (min 6 (of_int n / 2 :: rat)) = of_int (max (- 12) (min 12 n)) / 2"
proof -
  have a: "(of_int n / 2 \<le> (6::rat)) = (n \<le> 12)"
  proof -
    have "(of_int n / 2 \<le> (6::rat)) = ((of_int n :: rat) \<le> of_int 12)" by (simp add: field_simps)
    also have "\<dots> = (n \<le> 12)" by (simp only: of_int_le_iff)
    finally show ?thesis .
  qed
  have b: "((- 6 :: rat) \<le> of_int n / 2) = (- 12 \<le> n)"
  proof -
    have "((- 6 :: rat) \<le> of_int n / 2) = ((of_int (- 12) :: rat) \<le> of_int n)" by (simp add: field_simps)
    also have "\<dots> = (- 12 \<le> n)" by (simp only: of_int_le_iff)
    finally show ?thesis .
  qed
  show ?thesis
  proof (cases "n \<le> 12")
    case True
    then have m: "min 6 (of_int n / 2 :: rat) = of_int n / 2" "min 12 n = n" using a by auto
    show ?thesis
    proof (cases "- 12 \<le> n")
      case True
      then show ?thesis using m b by (simp add: max_def)
    next
      case False
      then have "max (- 6) (of_int n / 2 :: rat) = - 6" "max (- 12) n = - 12"
        using b by (auto simp add: max_def)
      then show ?thesis using m by simp
    qed
  next
    case False
    then have "min 6 (of_int n / 2 :: rat) = 6" "min 12 n = 12" using a by (auto simp add: min_def)
    then show ?thesis by simp
  qed
qed

lemma handicap_of_Some:
  assumes "handicap (handicap_of df p) = Some h"
  shows "\<exists>x. h = max (- 6) (min 6 (round_half x))"
proof (cases "reference df")
  case None
  then show ?thesis using assms by (simp add: handicap_of_def Let_def)
next
  case (Some ref)
  show ?thesis
  proof (cases "case map_of (player_form df) p of None \<Rightarrow> None | Some v \<Rightarrow> v")
    case None
    then show ?thesis using assms Some by (simp add: handicap_of_def Let_def)
  next
    case (Some fi)
    then have "h = max (- 6) (min 6 (round_half ((ref - fi) / 10)))"
      using assms \<open>reference df = Some ref\<close>
      by (simp add: handicap_of_def Let_def HANDICAP_CAP_def HANDICAP_POINTS_PER_STROKE_def)
    then show ?thesis by blast
  qed
qed

lemma handicap_of_range:
  assumes "handicap (handicap_of df p) = Some h"
  shows "- 6 \<le> h \<and> h \<le> 6 \<and> (\<exists>k :: int. h = of_int k / 2)"
proof -
  from handicap_of_Some [OF assms] obtain x where h: "h = max (- 6) (min 6 (round_half x))" by blast
  have r: "- 6 \<le> h \<and> h \<le> 6" using h by simp
  have "h = of_int (max (- 12) (min 12 (py_round (x * 2)))) / 2"
    unfolding h round_half_def by (rule clamp_half)
  then show ?thesis using r by blast
qed

lemma finite_TRACKED_PLAYERS: "finite TRACKED_PLAYERS"
  by (simp add: TRACKED_PLAYERS_def)

lemma set_handicaps: "set (handicaps df) = handicap_of df ` TRACKED_PLAYERS"
  by (simp add: handicaps_def finite_TRACKED_PLAYERS)

lemma Miza_tracked: "''Miza'' \<in> TRACKED_PLAYERS"
  by (simp add: TRACKED_PLAYERS_def)

text \<open>
  Claim C2. Whenever an entry of the handicap output has a handicap, that handicap lies
  between -6 and 6 and is an integer multiple of one half.
\<close>

theorem handicap_in_range:
  assumes "e \<in> set (handicaps df)" "handicap e = Some h"
  shows "- 6 \<le> h \<and> h \<le> 6 \<and> (\<exists>k :: int. h = of_int k / 2)"
proof -
  from assms(1) obtain p where "e = handicap_of df p" by (auto simp add: handicaps_def)
  then show ?thesis using assms(2) handicap_of_range by blast
qed

theorem handicap_in_range_witness:
  "handicap_of sample_df ''Miza'' \<in> set (handicaps sample_df)
   \<and> handicap (handicap_of sample_df ''Miza'') = Some (- 6)
   \<and> (- 6 :: rat) \<le> - 6 \<and> (- 6 :: rat) \<le> 6 \<and> (\<exists>k :: int. (- 6 :: rat) = of_int k / 2)"
proof -
  have m: "handicap_of sample_df ''Miza'' \<in> set (handicaps sample_df)"
    using Miza_tracked by (simp add: set_handicaps)
  have h: "handicap (handicap_of sample_df ''Miza'') = Some (- 6)" by code_simp
  from handicap_in_range [OF m h] show ?thesis using m h by blast
qed

subsection \<open>The first Sunday of a month\<close>

lemma days_in_month_ge28: "28 \<le> days_in_month y m"
  by (simp add: days_in_month_def)

lemma add_days_same_month:
  "day d + int n \<le> days_in_month (year d) (month d) \<Longrightarrow>
   add_days d n = Inr (d\<lparr>day := day d + int n\<rparr>)"
proof (induction n arbitrary: d)
  case 0
  then show ?case by simp
next
  case (Suc n)
  have lt: "day d < days_in_month (year d) (month d)" using Suc.prems by simp
  have nd: "next_day d = Inr (d\<lparr>day := day d + 1\<rparr>)" using lt by (simp add: next_day_def)
  have "add_days (d\<lparr>day := day d + 1\<rparr>) n = Inr (d\<lparr>day := day d + 1, day := day d + 1 + int n\<rparr>)"
    using Suc.IH [of "d\<lparr>day := day d + 1\<rparr>"] Suc.prems by simp
  then show ?case using nd by (simp add: add.assoc add.commute)
qed

lemma sunday_offset_range: "0 \<le> sunday_offset y m \<and> sunday_offset y m \<le> 6"
  by (simp add: sunday_offset_def)

lemma first_sunday_eq:
  assumes "1 \<le> y" "y \<le> 9999" "1 \<le> m" "m \<le> 12"
  shows "first_sunday y m = Inr \<lparr>year = y, month = m, day = 1 + sunday_offset y m\<rparr>"
proof -
  let ?d = "\<lparr>year = y, month = m, day = 1\<rparr>"
  have v: "mk_date y m 1 = Inr ?d"
    using assms days_in_month_ge28 [of y m] by (simp add: mk_date_def valid_date_def)
  have r: "0 \<le> sunday_offset y m" "sunday_offset y m \<le> 6" using sunday_offset_range by auto
  have "day ?d + int (nat (sunday_offset y m)) \<le> days_in_month (year ?d) (month ?d)"
    using r days_in_month_ge28 [of y m] by simp
  from add_days_same_month [OF this]
  have "add_days ?d (nat (sunday_offset y m))
        = Inr \<lparr>year = y, month = m, day = 1 + sunday_offset y m\<rparr>"
    using r by simp
  then show ?thesis using v by (simp add: first_sunday_def sunday_offset_def Let_def)
qed

lemma first_sunday_year0: "y < 1 \<Longrightarrow> first_sunday y m = Inl ValueError"
  by (simp add: first_sunday_def mk_date_def valid_date_def)

lemma weekday_first_sunday:
  "weekday \<lparr>year = y, month = m, day = 1 + sunday_offset y m\<rparr> = 6"
proof -
  have "toordinal \<lparr>year = y, month = m, day = 1 + sunday_offset y m\<rparr>
        = toordinal \<lparr>year = y, month = m, day = 1\<rparr> + sunday_offset y m"
    by (simp add: toordinal_def)
  then show ?thesis
    unfolding weekday_def sunday_offset_def weekday_def by presburger
qed

subsection \<open>The season of a date\<close>

lemma season_for_cases:
  assumes "1 \<le> year d" "year d \<le> 9999"
  shows "season_for d =
     (let apr = \<lparr>year = year d, month = 4, day = 1 + sunday_offset (year d) 4\<rparr>;
          oct = \<lparr>year = year d, month = 10, day = 1 + sunday_offset (year d) 10\<rparr>
      in if date_le oct d then Inr (summer_of (year d) (isoformat oct))
         else if date_le apr d then Inr (winter_of (year d) (isoformat apr))
         else if 2 \<le> year d
           then Inr (summer_of (year d - 1)
                  (isoformat \<lparr>year = year d - 1, month = 10, day = 1 + sunday_offset (year d - 1) 10\<rparr>))
           else Inl ValueError)"
proof -
  have a: "first_sunday (year d) 4 = Inr \<lparr>year = year d, month = 4, day = 1 + sunday_offset (year d) 4\<rparr>"
    using assms by (simp add: first_sunday_eq)
  have o: "first_sunday (year d) 10 = Inr \<lparr>year = year d, month = 10, day = 1 + sunday_offset (year d) 10\<rparr>"
    using assms by (simp add: first_sunday_eq)
  show ?thesis
  proof (cases "2 \<le> year d")
    case True
    then have p: "first_sunday (year d - 1) 10
       = Inr \<lparr>year = year d - 1, month = 10, day = 1 + sunday_offset (year d - 1) 10\<rparr>"
      using assms by (simp add: first_sunday_eq)
    show ?thesis using True
      by (simp add: season_for_def a o p Let_def summer_of_def winter_of_def)
  next
    case False
    then have p: "first_sunday (year d - 1) 10 = Inl ValueError"
      by (simp add: first_sunday_year0)
    show ?thesis using False
      by (simp add: season_for_def a o p Let_def summer_of_def winter_of_def)
  qed
qed

lemma season_for_oct_start:
  assumes "1 \<le> Y" "Y \<le> 9999"
  shows "season_for \<lparr>year = Y, month = 10, day = 1 + sunday_offset Y 10\<rparr>
     = Inr (summer_of Y (isoformat \<lparr>year = Y, month = 10, day = 1 + sunday_offset Y 10\<rparr>))"
  using assms by (simp add: season_for_cases Let_def date_le_def)

lemma season_for_apr_start:
  assumes "1 \<le> Y" "Y \<le> 9999"
  shows "season_for \<lparr>year = Y, month = 4, day = 1 + sunday_offset Y 4\<rparr>
     = Inr (winter_of Y (isoformat \<lparr>year = Y, month = 4, day = 1 + sunday_offset Y 4\<rparr>))"
  using assms by (simp add: season_for_cases Let_def date_le_def)

lemma prev_day_oct_start:
  "\<exists>p. prev_day \<lparr>year = Y, month = 10, day = 1 + sunday_offset Y 10\<rparr> = Inr p
     \<and> year p = Y \<and> (month p = 9 \<or> month p = 10 \<and> day p \<le> sunday_offset Y 10)"
  using sunday_offset_range [of Y 10] by (simp add: prev_day_def)

lemma season_for_before_oct_start:
  assumes "1 \<le> Y" "Y \<le> 9999"
    and "prev_day \<lparr>year = Y, month = 10, day = 1 + sunday_offset Y 10\<rparr> = Inr p"
  shows "season_for p
     = Inr (winter_of Y (isoformat \<lparr>year = Y, month = 4, day = 1 + sunday_offset Y 4\<rparr>))"
proof -
  from prev_day_oct_start [of Y] assms(3)
  have p: "year p = Y" "month p = 9 \<or> month p = 10 \<and> day p \<le> sunday_offset Y 10" by auto
  then show ?thesis using assms(1,2) sunday_offset_range [of Y 4]
    by (auto simp add: season_for_cases Let_def date_le_def)
qed

lemma prev_day_apr_start:
  "\<exists>p. prev_day \<lparr>year = Y, month = 4, day = 1 + sunday_offset Y 4\<rparr> = Inr p
     \<and> year p = Y \<and> (month p = 3 \<or> month p = 4 \<and> day p \<le> sunday_offset Y 4)"
  using sunday_offset_range [of Y 4] by (simp add: prev_day_def)

lemma season_for_before_apr_start:
  assumes "1 \<le> Y" "Y \<le> 9999"
    and "prev_day \<lparr>year = Y, month = 4, day = 1 + sunday_offset Y 4\<rparr> = Inr p"
  shows "season_for p
     = (if 2 \<le> Y then Inr (summer_of (Y - 1)
                  (isoformat \<lparr>year = Y - 1, month = 10, day = 1 + sunday_offset (Y - 1) 10\<rparr>))
        else Inl ValueError)"
proof -
  from prev_day_apr_start [of Y] assms(3)
  have p: "year p = Y" "month p = 3 \<or> month p = 4 \<and> day p \<le> sunday_offset Y 4" by auto
  then show ?thesis using assms(1,2) sunday_offset_range [of Y 10]
    by (auto simp add: season_for_cases Let_def date_le_def)
qed

lemma sunday_offset_1_4: "sunday_offset 1 4 = 0"
  by (simp add: sunday_offset_def weekday_def toordinal_def days_before_year_def
      days_before_month_def is_leap_def)

lemma season_for_total:
  assumes "valid_date d"
  shows "(\<exists>s. season_for d = Inr s) = (\<not> (year d = 1 \<and> month d < 4))"
proof -
  have y: "1 \<le> year d" "year d \<le> 9999" using assms by (simp_all add: valid_date_def)
  have dd: "1 \<le> day d" using assms by (simp add: valid_date_def)
  show ?thesis
  proof (cases "2 \<le> year d")
    case True
    then show ?thesis using y by (simp add: season_for_cases Let_def)
  next
    case False
    then have "year d = 1" using y by simp
    then show ?thesis using y dd sunday_offset_1_4
      by (auto simp add: season_for_cases Let_def date_le_def)
  qed
qed

lemma season_for_year_one:
  assumes "valid_date d" "year d = 1" "month d < 4"
  shows "season_for d = Inl ValueError"
proof -
  have dd: "1 \<le> day d" using assms(1) by (simp add: valid_date_def)
  show ?thesis using assms(2,3) dd sunday_offset_1_4 sunday_offset_range [of 1 10]
    by (auto simp add: season_for_cases Let_def date_le_def)
qed

subsection \<open>The last two characters of a year\<close>

lemma str_nat_nonempty: "str_nat n \<noteq> []"
  by (subst str_nat.simps) simp

lemma last_str_nat: "last (str_nat n) = digit_char (n mod 10)"
  by (subst str_nat.simps) simp

lemma last2_snoc: "xs \<noteq> [] \<Longrightarrow> last2 (xs @ [c]) = [last xs, c]"
  by (cases xs rule: rev_cases) (simp_all add: last2_def)

lemma mod100_digits:
  fixes n :: nat
  shows "(n mod 100) div 10 = (n div 10) mod 10" "(n mod 100) mod 10 = n mod 10"
proof -
  have "n mod 100 = n mod (10 * 10)" by simp
  also have "\<dots> = n mod 10 + 10 * (n div 10 mod 10)" by (subst mod_mult2_eq) simp
  finally have e: "n mod 100 = n mod 10 + 10 * (n div 10 mod 10)" .
  show "(n mod 100) div 10 = (n div 10) mod 10" unfolding e by simp
  show "(n mod 100) mod 10 = n mod 10" unfolding e by simp
qed

lemma last2_py_str:
  assumes "10 \<le> y"
  shows "last2 (py_str y) = [digit_char (nat (y mod 100) div 10), digit_char (nat (y mod 100) mod 10)]"
proof -
  let ?n = "nat y"
  have n: "\<not> ?n < 10" using assms by simp
  have "str_nat ?n = str_nat (?n div 10) @ [digit_char (?n mod 10)]"
    using n str_nat.simps [of ?n] by simp
  then have "last2 (str_nat ?n) = [last (str_nat (?n div 10)), digit_char (?n mod 10)]"
    using last2_snoc [OF str_nat_nonempty] by simp
  then have a: "last2 (str_nat ?n) = [digit_char ((?n div 10) mod 10), digit_char (?n mod 10)]"
    by (simp only: last_str_nat)
  have b: "nat (y mod 100) = ?n mod 100" using assms by (simp add: nat_mod_distrib)
  have c: "py_str y = str_nat ?n" using assms by (simp add: py_str_def)
  show ?thesis unfolding b c a mod100_digits ..
qed

text \<open>
  Claim C4 as stated fails at the start of the calendar. The 31st of March of year 1 is a
  calendar date, and it is the day before the April start of year 1 (the 1st of April of
  year 1 is a Sunday); there \<^verbatim>\<open>season_for\<close> asks for the October start of year 0 and
  raises ValueError instead of returning a Summer season.
\<close>

theorem season_for_year_one_raises:
  "valid_date \<lparr>year = 1, month = 3, day = 31\<rparr>
   \<and> first_sunday 1 4 = Inr \<lparr>year = 1, month = 4, day = 1\<rparr>
   \<and> prev_day \<lparr>year = 1, month = 4, day = 1\<rparr> = Inr \<lparr>year = 1, month = 3, day = 31\<rparr>
   \<and> season_for \<lparr>year = 1, month = 3, day = 31\<rparr> = Inl ValueError"
  by code_simp

text \<open>
  Claim C4, as amended. A \<^verbatim>\<open>date\<close> has a year from 1 to 9999, and year 0 does not
  exist: \<^verbatim>\<open>season_for\<close> returns a season for every date except those of January to
  March of year 1, and on each of those it raises ValueError, from building the 1st of
  October of year 0. For every
  year \<open>Y\<close> from 1 to 9999 the April and October starts are Sundays among the first seven
  days of their month; the October start is in the Summer of \<open>Y\<close>, the day before it and the
  April start are in the Winter of \<open>Y\<close>, and, from year 2 on, the day before the April start
  is in the Summer labelled with \<open>Y - 1\<close> and the last two characters of \<open>Y\<close>, which are the
  two digits of \<open>Y mod 100\<close> once \<open>Y\<close> has two digits.
\<close>

theorem season_for_boundaries:
  "(valid_date d \<longrightarrow> ((\<exists>s. season_for d = Inr s) = (\<not> (year d = 1 \<and> month d < 4))))
   \<and> (valid_date d \<and> year d = 1 \<and> month d < 4 \<longrightarrow> season_for d = Inl ValueError)
   \<and> (1 \<le> Y \<and> Y \<le> 9999 \<longrightarrow>
       (\<exists>apr oct bo ba.
          first_sunday Y 4 = Inr apr \<and> first_sunday Y 10 = Inr oct
        \<and> year apr = Y \<and> month apr = 4 \<and> 1 \<le> day apr \<and> day apr \<le> 7 \<and> weekday apr = 6
        \<and> year oct = Y \<and> month oct = 10 \<and> 1 \<le> day oct \<and> day oct \<le> 7 \<and> weekday oct = 6
        \<and> season_for oct = Inr (summer_of Y (isoformat oct))
        \<and> prev_day oct = Inr bo \<and> season_for bo = Inr (winter_of Y (isoformat apr))
        \<and> season_for apr = Inr (winter_of Y (isoformat apr))
        \<and> prev_day apr = Inr ba
        \<and> (2 \<le> Y \<longrightarrow>
             (\<exists>q. first_sunday (Y - 1) 10 = Inr q
                \<and> season_for ba = Inr \<lparr>season_type = ''Summer'',
                     season_label = ''Summer '' @ py_str (Y - 1) @ ''-'' @ last2 (py_str Y),
                     season_start = isoformat q\<rparr>))
        \<and> (10 \<le> Y \<longrightarrow> last2 (py_str Y)
               = [digit_char (nat (Y mod 100) div 10), digit_char (nat (Y mod 100) mod 10)])))"
proof (intro conjI impI)
  assume "valid_date d"
  then show "(\<exists>s. season_for d = Inr s) = (\<not> (year d = 1 \<and> month d < 4))"
    by (rule season_for_total)
next
  assume "valid_date d \<and> year d = 1 \<and> month d < 4"
  then show "season_for d = Inl ValueError"
    by (simp add: season_for_year_one)
next
  assume Y: "1 \<le> Y \<and> Y \<le> 9999"
  let ?apr = "\<lparr>year = Y, month = 4, day = 1 + sunday_offset Y 4\<rparr>"
  let ?oct = "\<lparr>year = Y, month = 10, day = 1 + sunday_offset Y 10\<rparr>"
  let ?q = "\<lparr>year = Y - 1, month = 10, day = 1 + sunday_offset (Y - 1) 10\<rparr>"
  obtain bo where bo: "prev_day ?oct = Inr bo" using prev_day_oct_start [of Y] by blast
  obtain ba where ba: "prev_day ?apr = Inr ba" using prev_day_apr_start [of Y] by blast
  have f4: "first_sunday Y 4 = Inr ?apr" using Y by (simp add: first_sunday_eq)
  have f10: "first_sunday Y 10 = Inr ?oct" using Y by (simp add: first_sunday_eq)
  have ra: "year ?apr = Y \<and> month ?apr = 4 \<and> 1 \<le> day ?apr \<and> day ?apr \<le> 7 \<and> weekday ?apr = 6"
    using sunday_offset_range [of Y 4] weekday_first_sunday [of Y 4] by simp
  have ro: "year ?oct = Y \<and> month ?oct = 10 \<and> 1 \<le> day ?oct \<and> day ?oct \<le> 7 \<and> weekday ?oct = 6"
    using sunday_offset_range [of Y 10] weekday_first_sunday [of Y 10] by simp
  have s1: "season_for ?oct = Inr (summer_of Y (isoformat ?oct))"
    using Y by (simp add: season_for_oct_start)
  have s2: "season_for bo = Inr (winter_of Y (isoformat ?apr))"
    using Y bo by (simp add: season_for_before_oct_start)
  have s3: "season_for ?apr = Inr (winter_of Y (isoformat ?apr))"
    using Y by (simp add: season_for_apr_start)
  have s4: "2 \<le> Y \<longrightarrow>
             (\<exists>q. first_sunday (Y - 1) 10 = Inr q
                \<and> season_for ba = Inr \<lparr>season_type = ''Summer'',
                     season_label = ''Summer '' @ py_str (Y - 1) @ ''-'' @ last2 (py_str Y),
                     season_start = isoformat q\<rparr>)"
  proof
    assume y2: "2 \<le> Y"
    have q: "first_sunday (Y - 1) 10 = Inr ?q" using Y y2 by (simp add: first_sunday_eq)
    have "season_for ba = Inr (summer_of (Y - 1) (isoformat ?q))"
      using Y y2 ba season_for_before_apr_start [of Y ba] by simp
    then show "\<exists>q. first_sunday (Y - 1) 10 = Inr q
                \<and> season_for ba = Inr \<lparr>season_type = ''Summer'',
                     season_label = ''Summer '' @ py_str (Y - 1) @ ''-'' @ last2 (py_str Y),
                     season_start = isoformat q\<rparr>"
      using q by (simp add: summer_of_def)
  qed
  have s5: "10 \<le> Y \<longrightarrow> last2 (py_str Y)
               = [digit_char (nat (Y mod 100) div 10), digit_char (nat (Y mod 100) mod 10)]"
    using last2_py_str by blast
  show "\<exists>apr oct bo ba.
          first_sunday Y 4 = Inr apr \<and> first_sunday Y 10 = Inr oct
        \<and> year apr = Y \<and> month apr = 4 \<and> 1 \<le> day apr \<and> day apr \<le> 7 \<and> weekday apr = 6
        \<and> year oct = Y \<and> month oct = 10 \<and> 1 \<le> day oct \<and> day oct \<le> 7 \<and> weekday oct = 6
        \<and> season_for oct = Inr (summer_of Y (isoformat oct))
        \<and> prev_day oct = Inr bo \<and> season_for bo = Inr (winter_of Y (isoformat apr))
        \<and> season_for apr = Inr (winter_of Y (isoformat apr))
        \<and> prev_day apr = Inr ba
        \<and> (2 \<le> Y \<longrightarrow>
             (\<exists>q. first_sunday (Y - 1) 10 = Inr q
                \<and> season_for ba = Inr \<lparr>season_type = ''Summer'',
                     season_label = ''Summer '' @ py_str (Y - 1) @ ''-'' @ last2 (py_str Y),
                     season_start = isoformat q\<rparr>))
        \<and> (10 \<le> Y \<longrightarrow> last2 (py_str Y)
               = [digit_char (nat (Y mod 100) div 10), digit_char (nat (Y mod 100) mod 10)])"
    apply (rule exI [of _ ?apr])
    apply (rule exI [of _ ?oct])
    apply (rule exI [of _ bo])
    apply (rule exI [of _ ba])
    using f4 f10 ra ro s1 s2 s3 s4 s5 bo ba by blast
qed

theorem season_for_boundaries_witness:
  "valid_date \<lparr>year = 2025, month = 12, day = 22\<rparr>
   \<and> (1 :: int) \<le> 2025 \<and> (2025 :: int) \<le> 9999
   \<and> (\<exists>s. season_for \<lparr>year = 2025, month = 12, day = 22\<rparr> = Inr s)
   \<and> valid_date \<lparr>year = 1, month = 2, day = 3\<rparr>
   \<and> season_for \<lparr>year = 1, month = 2, day = 3\<rparr> = Inl ValueError
   \<and> (\<exists>apr oct bo ba.
          first_sunday 2025 4 = Inr apr \<and> first_sunday 2025 10 = Inr oct
        \<and> weekday apr = 6 \<and> weekday oct = 6
        \<and> season_for oct = Inr (summer_of 2025 (isoformat oct))
        \<and> prev_day oct = Inr bo \<and> season_for bo = Inr (winter_of 2025 (isoformat apr))
        \<and> season_for apr = Inr (winter_of 2025 (isoformat apr))
        \<and> prev_day apr = Inr ba
        \<and> (\<exists>q. first_sunday 2024 10 = Inr q
                \<and> season_for ba = Inr \<lparr>season_type = ''Summer'',
                     season_label = ''Summer '' @ py_str 2024 @ ''-'' @ last2 (py_str 2025),
                     season_start = isoformat q\<rparr>)
        \<and> last2 (py_str 2025) = ''25'')"
proof -
  have v: "valid_date \<lparr>year = 2025, month = 12, day = 22\<rparr>" by code_simp
  have c: "[digit_char (nat (2025 mod 100) div 10), digit_char (nat (2025 mod 100) mod 10)] = ''25''"
    by code_simp
  have w: "valid_date \<lparr>year = 1, month = 2, day = 3\<rparr>" by code_simp
  have e: "season_for \<lparr>year = 1, month = 2, day = 3\<rparr> = Inl ValueError"
    using season_for_boundaries [of "\<lparr>year = 1, month = 2, day = 3\<rparr>" 1] w by simp
  show ?thesis
    using season_for_boundaries [of "\<lparr>year = 2025, month = 12, day = 22\<rparr>" 2025] v c w e
    by simp blast
qed

subsection \<open>The rows that reach the data frame\<close>

lemma traverse_Inr:
  "traverse f xs = Inr ys \<Longrightarrow> list_all2 (\<lambda>x y. f x = Inr y) xs ys"
proof (induction xs arbitrary: ys)
  case Nil
  then show ?case by simp
next
  case (Cons x xs)
  then show ?case by (auto split: sum.splits)
qed

lemma traverse_total:
  "list_all2 (\<lambda>x y. f x = Inr y) xs ys \<Longrightarrow> traverse f xs = Inr ys"
  by (induction xs ys rule: list_all2_induct) simp_all

lemma parse_row_Inr: "parse_row E r = Inr x \<Longrightarrow> fst x = r"
  by (auto simp add: parse_row_def split: sum.splits)

lemma tag_row_Inr:
  assumes "tag_row E x = Inr n"
  shows "row n = fst x" "StartDT n = fst (snd x)"
    "RoundRatingNum n = to_numeric (RoundRating (fst x))"
    "IsRated n = (to_numeric (RoundRating (fst x)) \<noteq> None)"
  using assms by (auto simp add: tag_row_def split: sum.splits prod.splits)

lemma list_all2_map_eq:
  "list_all2 (\<lambda>x y. g y = h x) xs ys \<Longrightarrow> map g ys = map h xs"
  by (induction xs ys rule: list_all2_induct) simp_all

lemma list_all2_in_right:
  "list_all2 P xs ys \<Longrightarrow> y \<in> set ys \<Longrightarrow> \<exists>x \<in> set xs. P x y"
  by (induction xs ys rule: list_all2_induct) auto

lemma normalize_rows:
  assumes "normalize E rows = Inr df"
  shows "map row df = filter (\<lambda>r. PlayerName r \<in> TRACKED_PLAYERS \<and> full_18_only r)
                        (map (\<lambda>r. r\<lparr>PlayerName := canon_name (PlayerName r)\<rparr>) rows)"
proof -
  let ?named = "map (\<lambda>r. r\<lparr>PlayerName := canon_name (PlayerName r)\<rparr>) rows"
  let ?P = "\<lambda>(r, s, t). PlayerName r \<in> TRACKED_PLAYERS \<and> full_18_only r"
  from assms obtain parsed where p: "traverse (parse_row E) ?named = Inr parsed"
    and t: "traverse (tag_row E) (filter ?P parsed) = Inr df"
    by (auto simp add: normalize_def Let_def split: sum.splits)
  have "list_all2 (\<lambda>r x. fst x = r) ?named parsed"
    using traverse_Inr [OF p] by (rule list_all2_mono) (simp add: parse_row_Inr)
  then have a: "map fst parsed = ?named"
    using list_all2_map_eq [of fst "\<lambda>r. r" ?named parsed] by simp
  have "list_all2 (\<lambda>x n. row n = fst x) (filter ?P parsed) df"
    using traverse_Inr [OF t] by (rule list_all2_mono) (simp add: tag_row_Inr)
  then have "map row df = map fst (filter ?P parsed)"
    by (rule list_all2_map_eq)
  also have "\<dots> = filter (\<lambda>r. PlayerName r \<in> TRACKED_PLAYERS \<and> full_18_only r) (map fst parsed)"
    by (simp add: filter_map comp_def case_prod_unfold)
  finally show ?thesis by (simp only: a)
qed

lemma normalize_row_facts:
  assumes "normalize E rows = Inr df" "n \<in> set df"
  shows "RoundRatingNum n = to_numeric (RoundRating (row n))"
    "IsRated n = (to_numeric (RoundRating (row n)) \<noteq> None)"
proof -
  let ?named = "map (\<lambda>r. r\<lparr>PlayerName := canon_name (PlayerName r)\<rparr>) rows"
  let ?P = "\<lambda>(r, s, t). PlayerName r \<in> TRACKED_PLAYERS \<and> full_18_only r"
  from assms obtain parsed where t: "traverse (tag_row E) (filter ?P parsed) = Inr df"
    by (auto simp add: normalize_def Let_def split: sum.splits)
  from list_all2_in_right [OF traverse_Inr [OF t] assms(2)]
  obtain x where x: "tag_row E x = Inr n" by blast
  show "RoundRatingNum n = to_numeric (RoundRating (row n))"
    using tag_row_Inr [OF x] by simp
  show "IsRated n = (to_numeric (RoundRating (row n)) \<noteq> None)"
    using tag_row_Inr [OF x] by simp
qed

lemma full_18_only_holes:
  "full_18_only r = ((\<forall>i \<in> {1..18}. Hole r i \<noteq> NA) \<and> (\<forall>i \<in> {19..27}. Hole r i = NA))"
proof -
  have a: "set [1..<19] = {1..18::nat}" by auto
  have b: "set [19..<28] = {19..27::nat}" by auto
  show ?thesis
    by (simp only: full_18_only_def has_all_18_def has_extra_def list_ex_iff a b isna_def) blast
qed

lemma sample_normalize:
  "\<exists>df. normalize sample_env sample_raw = Inr df
     \<and> map (\<lambda>n. (PlayerName (row n), RoundRating (row n), RoundRatingNum n, IsRated n)) df
         = [(''Miza'', Num 900, Some 900, True), (''Jobby'', Text ''n/a'', None, False)]"
proof -
  have "case normalize sample_env sample_raw of Inl e \<Rightarrow> False
        | Inr df \<Rightarrow> map (\<lambda>n. (PlayerName (row n), RoundRating (row n), RoundRatingNum n, IsRated n)) df
         = [(''Miza'', Num 900, Some 900, True), (''Jobby'', Text ''n/a'', None, False)]"
    by code_simp
  then show ?thesis by (cases "normalize sample_env sample_raw") simp_all
qed

text \<open>
  Claim C3. When the run gets through, every row of the data frame has a score on each of the
  holes 1 to 18 and none on the holes 19 to 27; the rows of the data frame are exactly the rows
  of the input, in their order and with the canonical player names, that belong to a tracked
  player and have this complete card, so that a row without one of the holes 1 to 18 or with a
  score on one of the holes 19 to 27 is left out whatever its other fields are.
\<close>

theorem full_rounds_only:
  assumes "normalize E rows = Inr df"
  shows "(\<forall>n \<in> set df. (\<forall>i \<in> {1..18}. Hole (row n) i \<noteq> NA) \<and> (\<forall>i \<in> {19..27}. Hole (row n) i = NA))
       \<and> map row df
           = filter (\<lambda>r. PlayerName r \<in> TRACKED_PLAYERS
                           \<and> (\<forall>i \<in> {1..18}. Hole r i \<noteq> NA) \<and> (\<forall>i \<in> {19..27}. Hole r i = NA))
               (map (\<lambda>r. r\<lparr>PlayerName := canon_name (PlayerName r)\<rparr>) rows)"
proof (intro conjI)
  have m: "map row df
           = filter (\<lambda>r. PlayerName r \<in> TRACKED_PLAYERS \<and> full_18_only r)
               (map (\<lambda>r. r\<lparr>PlayerName := canon_name (PlayerName r)\<rparr>) rows)"
    using assms by (rule normalize_rows)
  show "map row df
           = filter (\<lambda>r. PlayerName r \<in> TRACKED_PLAYERS
                           \<and> (\<forall>i \<in> {1..18}. Hole r i \<noteq> NA) \<and> (\<forall>i \<in> {19..27}. Hole r i = NA))
               (map (\<lambda>r. r\<lparr>PlayerName := canon_name (PlayerName r)\<rparr>) rows)"
    using m by (simp only: full_18_only_holes)
  show "\<forall>n \<in> set df. (\<forall>i \<in> {1..18}. Hole (row n) i \<noteq> NA) \<and> (\<forall>i \<in> {19..27}. Hole (row n) i = NA)"
  proof
    fix n assume "n \<in> set df"
    then have "row n \<in> set (map row df)" by simp
    then have "full_18_only (row n)" by (simp only: m set_filter mem_Collect_eq)
    then show "(\<forall>i \<in> {1..18}. Hole (row n) i \<noteq> NA) \<and> (\<forall>i \<in> {19..27}. Hole (row n) i = NA)"
      by (simp only: full_18_only_holes)
  qed
qed


theorem full_rounds_only_witness:
  "\<exists>df. normalize sample_env sample_raw = Inr df
     \<and> map (\<lambda>n. PlayerName (row n)) df = [''Miza'', ''Jobby'']
     \<and> Hole (row (hd df)) 7 \<noteq> NA \<and> Hole (row (hd df)) 19 = NA"
proof -
  from sample_normalize obtain df where hp: "normalize sample_env sample_raw = Inr df
     \<and> map (\<lambda>n. (PlayerName (row n), RoundRating (row n), RoundRatingNum n, IsRated n)) df
         = [(''Miza'', Num 900, Some 900, True), (''Jobby'', Text ''n/a'', None, False)]" ..
  note h = hp [THEN conjunct1] and p = hp [THEN conjunct2]
  have "map (\<lambda>n. PlayerName (row n)) df
        = map fst (map (\<lambda>n. (PlayerName (row n), RoundRating (row n), RoundRatingNum n, IsRated n)) df)"
    by simp
  then have q: "map (\<lambda>n. PlayerName (row n)) df = [''Miza'', ''Jobby'']"
    by (simp only: p) simp
  from q have "hd df \<in> set df" by (cases df) auto
  with full_rounds_only [OF h]
  have k: "Hole (row (hd df)) 7 \<noteq> NA \<and> Hole (row (hd df)) 19 = NA" by simp
  show ?thesis by (rule exI [of _ df]) (simp add: h q k)
qed

subsection \<open>The rating column\<close>

lemma traverse_rel:
  assumes "list_all2 R xs xs'"
    and "\<And>x x'. R x x' \<Longrightarrow> rel_sum (=) S (f x) (g x')"
  shows "rel_sum (=) (list_all2 S) (traverse f xs) (traverse g xs')"
  using assms(1)
proof (induction xs xs' rule: list_all2_induct)
  case Nil
  then show ?case by simp
next
  case (Cons x xs y ys)
  from assms(2) [OF Cons.hyps(1)] Cons.IH show ?case
    by (auto elim!: rel_sum.cases)
qed

lemma list_all2_filter:
  assumes "list_all2 R xs ys" and "\<And>x y. R x y \<Longrightarrow> P x = Q y"
  shows "list_all2 R (filter P xs) (filter Q ys)"
  using assms(1)
proof (induction xs ys rule: list_all2_induct)
  case Nil
  then show ?case by simp
next
  case (Cons x xs y ys)
  then show ?case using assms(2) [of x y] by simp
qed

lemma parse_row_rating:
  assumes "same_but_rating r r'"
  shows "rel_sum (=) (\<lambda>x x'. same_but_rating (fst x) (fst x') \<and> snd x' = snd x)
           (parse_row E r) (parse_row E r')"
proof -
  from assms obtain v where v: "r' = r\<lparr>RoundRating := v\<rparr>" by (auto simp add: same_but_rating_def)
  show ?thesis using assms
    by (auto simp add: v parse_row_def split: sum.splits)
qed

lemma tag_row_rating:
  assumes "same_but_rating (fst x) (fst x') \<and> snd x' = snd x"
  shows "rel_sum (=) (\<lambda>n n'. True) (tag_row E x) (tag_row E x')"
proof -
  obtain r s t where x: "x = (r, s, t)" by (cases x) auto
  obtain r' where x': "x' = (r', s, t)" using assms x by (cases x') auto
  show ?thesis by (simp add: x x' tag_row_def split: sum.splits)
qed

lemma keep_rating:
  assumes "same_but_rating (fst x) (fst x') \<and> snd x' = snd x"
  shows "(case x of (r, s, t) \<Rightarrow> PlayerName r \<in> TRACKED_PLAYERS \<and> full_18_only r)
       = (case x' of (r, s, t) \<Rightarrow> PlayerName r \<in> TRACKED_PLAYERS \<and> full_18_only r)"
  using assms
  by (auto simp add: same_but_rating_def case_prod_unfold full_18_only_def has_all_18_def
      has_extra_def)

lemma canon_rating:
  "same_but_rating (r\<lparr>PlayerName := p\<rparr>) (r\<lparr>RoundRating := v, PlayerName := p\<rparr>)"
  unfolding same_but_rating_def by (rule exI [of _ v]) simp

lemma normalize_rating:
  "rel_sum (=) (list_all2 (\<lambda>n n'. True))
     (normalize E rows) (normalize E (map (\<lambda>r. r\<lparr>RoundRating := c r\<rparr>) rows))"
proof -
  let ?canon = "\<lambda>r. r\<lparr>PlayerName := canon_name (PlayerName r)\<rparr>"
  let ?P = "\<lambda>(r, s, t). PlayerName r \<in> TRACKED_PLAYERS \<and> full_18_only r"
  let ?R3 = "\<lambda>x x'. same_but_rating (fst x) (fst x') \<and> snd x' = snd x"
  have a: "list_all2 same_but_rating (map ?canon rows)
             (map ?canon (map (\<lambda>r. r\<lparr>RoundRating := c r\<rparr>) rows))"
    by (simp add: list_all2_map1 list_all2_map2 list_all2_same canon_rating)
  have b: "rel_sum (=) (list_all2 ?R3)
             (traverse (parse_row E) (map ?canon rows))
             (traverse (parse_row E) (map ?canon (map (\<lambda>r. r\<lparr>RoundRating := c r\<rparr>) rows)))"
    using a by (rule traverse_rel) (rule parse_row_rating)
  show ?thesis
  proof (cases "traverse (parse_row E) (map ?canon rows)")
    case (Inl e)
    then show ?thesis using b by (auto simp add: normalize_def Let_def elim!: rel_sum.cases)
  next
    case (Inr parsed)
    with b obtain parsed' where
      p': "traverse (parse_row E) (map ?canon (map (\<lambda>r. r\<lparr>RoundRating := c r\<rparr>) rows)) = Inr parsed'"
      and l: "list_all2 ?R3 parsed parsed'"
      by (auto elim!: rel_sum.cases)
    have "list_all2 ?R3 (filter ?P parsed) (filter ?P parsed')"
      using l by (rule list_all2_filter) (rule keep_rating)
    then have "rel_sum (=) (list_all2 (\<lambda>n n'. True))
                 (traverse (tag_row E) (filter ?P parsed)) (traverse (tag_row E) (filter ?P parsed'))"
      by (rule traverse_rel) (rule tag_row_rating)
    then show ?thesis using Inr p' by (simp add: normalize_def Let_def)
  qed
qed

lemma set_rounds: "set (rounds df) = round_of ` set df"
  by (simp add: rounds_def)

text \<open>
  Claim C8. The coercion of the rating has no failing case: a run that gets through still
  gets through when the rating cells are replaced by anything. In every row of the data frame
  a numeric rating is kept and the row is rated, any other rating (a text or a missing value)
  becomes null and the row is not rated; so in every emitted round the rating is non-null
  exactly when \<^verbatim>\<open>is_rated\<close> is true.
\<close>

theorem rating_coercion:
  assumes "normalize E rows = Inr df"
  shows "(\<exists>df'. normalize E (map (\<lambda>r. r\<lparr>RoundRating := c r\<rparr>) rows) = Inr df')
       \<and> (\<forall>n \<in> set df.
            (case RoundRating (row n) of
               Num x \<Rightarrow> r_rating (round_of n) = Some x \<and> r_is_rated (round_of n)
             | Text s \<Rightarrow> r_rating (round_of n) = None \<and> \<not> r_is_rated (round_of n)
             | NA \<Rightarrow> r_rating (round_of n) = None \<and> \<not> r_is_rated (round_of n)))
       \<and> (\<forall>e \<in> set (rounds df). (r_rating e \<noteq> None) = r_is_rated e)"
proof (intro conjI)
  show "\<exists>df'. normalize E (map (\<lambda>r. r\<lparr>RoundRating := c r\<rparr>) rows) = Inr df'"
    using normalize_rating [of E rows c] assms by (auto elim!: rel_sum.cases)
  have k: "r_rating (round_of n) = to_numeric (RoundRating (row n))
           \<and> r_is_rated (round_of n) = (to_numeric (RoundRating (row n)) \<noteq> None)"
    if "n \<in> set df" for n
    using normalize_row_facts [OF assms that]
    by (simp add: round_of_def safe_float_num_def split: option.splits)
  show "\<forall>n \<in> set df.
            (case RoundRating (row n) of
               Num x \<Rightarrow> r_rating (round_of n) = Some x \<and> r_is_rated (round_of n)
             | Text s \<Rightarrow> r_rating (round_of n) = None \<and> \<not> r_is_rated (round_of n)
             | NA \<Rightarrow> r_rating (round_of n) = None \<and> \<not> r_is_rated (round_of n))"
  proof
    fix n assume "n \<in> set df"
    from k [OF this] show "case RoundRating (row n) of
               Num x \<Rightarrow> r_rating (round_of n) = Some x \<and> r_is_rated (round_of n)
             | Text s \<Rightarrow> r_rating (round_of n) = None \<and> \<not> r_is_rated (round_of n)
             | NA \<Rightarrow> r_rating (round_of n) = None \<and> \<not> r_is_rated (round_of n)"
      by (simp add: to_numeric_def split: cell.splits)
  qed
  show "\<forall>e \<in> set (rounds df). (r_rating e \<noteq> None) = r_is_rated e"
  proof
    fix e assume "e \<in> set (rounds df)"
    then obtain n where "n \<in> set df" "e = round_of n" by (auto simp add: set_rounds)
    then show "(r_rating e \<noteq> None) = r_is_rated e" using k by simp
  qed
qed

theorem rating_coercion_witness:
  "\<exists>df. normalize sample_env sample_raw = Inr df
     \<and> (\<exists>df'. normalize sample_env (map (\<lambda>r. r\<lparr>RoundRating := Text ''?''\<rparr>) sample_raw) = Inr df')
     \<and> map (\<lambda>n. RoundRating (row n)) df = [Num 900, Text ''n/a'']
     \<and> map r_rating (map round_of df) = [Some 900, None]
     \<and> map r_is_rated (map round_of df) = [True, False]"
proof -
  from sample_normalize obtain df where hp: "normalize sample_env sample_raw = Inr df
     \<and> map (\<lambda>n. (PlayerName (row n), RoundRating (row n), RoundRatingNum n, IsRated n)) df
         = [(''Miza'', Num 900, Some 900, True), (''Jobby'', Text ''n/a'', None, False)]" ..
  note h = hp [THEN conjunct1] and p = hp [THEN conjunct2]
  from p obtain a b where d: "df = [a, b]" by auto
  have r: "RoundRating (row a) = Num 900" "RoundRating (row b) = Text ''n/a''"
    using p by (simp_all add: d)
  note t = rating_coercion [OF h, of "\<lambda>r. Text ''?''"]
  from t have "\<exists>df'. normalize sample_env (map (\<lambda>r. r\<lparr>RoundRating := Text ''?''\<rparr>) sample_raw) = Inr df'"
    by blast
  moreover from t have "r_rating (round_of a) = Some 900 \<and> r_is_rated (round_of a)"
    using r by (simp add: d)
  moreover from t have "r_rating (round_of b) = None \<and> \<not> r_is_rated (round_of b)"
    using r by (simp add: d)
  ultimately show ?thesis using h r by (simp add: d)
qed

subsection \<open>The form of a player and the entries of the handicap table\<close>

lemma set_group_keys: "set (group_keys f xs) = f ` set xs"
  by (simp add: group_keys_def)

lemma map_of_tabulate:
  "map_of (map (\<lambda>k. (k, g k)) ks) k = (if k \<in> set ks then Some (g k) else None)"
  by (induction ks) auto

lemma form_of_Nil: "form_of [] = None"
  by (simp add: form_of_def last20_def dropna_def map_filter_simps HANDICAP_MIN_ROUNDS_def)

lemma form_lookup:
  "(case map_of (player_form df) p of None \<Rightarrow> None | Some v \<Rightarrow> v)
   = form_of (filter (\<lambda>r. PlayerName (row r) = p) (rated_df df))"
proof (cases "p \<in> (\<lambda>r. PlayerName (row r)) ` set (rated_df df)")
  case True
  then show ?thesis by (simp add: player_form_def map_of_tabulate set_group_keys)
next
  case False
  then have "filter (\<lambda>r. PlayerName (row r) = p) (rated_df df) = []"
    by (auto simp add: filter_empty_conv)
  then show ?thesis using False
    by (simp add: player_form_def map_of_tabulate set_group_keys form_of_Nil)
qed

lemma handicap_of_fields:
  "h_player (handicap_of df p) = p"
  "form_index (handicap_of df p) = form_of (filter (\<lambda>r. PlayerName (row r) = p) (rated_df df))"
  "reference_rating (handicap_of df p) = reference df"
  by (simp_all add: handicap_of_def form_lookup Let_def split: option.splits)

lemma handicap_of_None:
  assumes "form_of (filter (\<lambda>r. PlayerName (row r) = p) (rated_df df)) = None"
  shows "handicap (handicap_of df p) = None"
    "status (handicap_of df p) = ''No handicap yet (insufficient rated rounds)''"
  using assms by (simp_all add: handicap_of_def form_lookup Let_def split: option.splits)

lemma sorted_TRACKED_PLAYERS:
  "sorted_list_of_set TRACKED_PLAYERS = [''Armygeddon'', ''Bucis'', ''Jobby'', ''Miza'', ''Youare22'']"
  by code_simp

lemma no_rounds_no_form:
  assumes "\<forall>r \<in> set df. PlayerName (row r) \<noteq> p"
  shows "form_of (filter (\<lambda>r. PlayerName (row r) = p) (rated_df df)) = None"
proof -
  have "filter (\<lambda>r. PlayerName (row r) = p) (rated_df df) = []"
    using assms by (auto simp add: filter_empty_conv rated_df_def)
  then show ?thesis by (simp add: form_of_Nil)
qed

text \<open>
  Claim C7. Whatever the data, the handicap table lists the tracked players once each, in
  ascending order of their names: Armygeddon, Bucis, Jobby, Miza, Youare22. The entry of a
  player is the one computed for that player, and a tracked player without any round in the
  data has a null form index, a null handicap and the status of insufficient rounds.
\<close>

theorem one_entry_per_tracked_player:
  "map h_player (handicaps df) = [''Armygeddon'', ''Bucis'', ''Jobby'', ''Miza'', ''Youare22'']
   \<and> set (map h_player (handicaps df)) = TRACKED_PLAYERS
   \<and> distinct (map h_player (handicaps df))
   \<and> sorted (map h_player (handicaps df))
   \<and> length (handicaps df) = card TRACKED_PLAYERS
   \<and> (\<forall>e \<in> set (handicaps df).
         (\<forall>r \<in> set df. PlayerName (row r) \<noteq> h_player e) \<longrightarrow>
           form_index e = None \<and> handicap e = None
           \<and> status e = ''No handicap yet (insufficient rated rounds)'')"
proof -
  have m: "map h_player (handicaps df) = sorted_list_of_set TRACKED_PLAYERS"
    by (simp add: handicaps_def comp_def handicap_of_fields)
  have a: "map h_player (handicaps df) = [''Armygeddon'', ''Bucis'', ''Jobby'', ''Miza'', ''Youare22'']"
    using m by (simp only: sorted_TRACKED_PLAYERS)
  have b: "set (map h_player (handicaps df)) = TRACKED_PLAYERS"
    unfolding m using finite_TRACKED_PLAYERS by simp
  have c: "distinct (map h_player (handicaps df))" unfolding m by simp
  have d: "sorted (map h_player (handicaps df))" unfolding m by simp
  have l: "length (handicaps df) = card TRACKED_PLAYERS"
    by (simp add: handicaps_def)
  have e: "\<forall>e \<in> set (handicaps df).
         (\<forall>r \<in> set df. PlayerName (row r) \<noteq> h_player e) \<longrightarrow>
           form_index e = None \<and> handicap e = None
           \<and> status e = ''No handicap yet (insufficient rated rounds)''"
  proof (intro ballI impI)
    fix e assume "e \<in> set (handicaps df)" and n: "\<forall>r \<in> set df. PlayerName (row r) \<noteq> h_player e"
    then obtain p where p: "e = handicap_of df p" by (auto simp add: handicaps_def)
    from n have "\<forall>r \<in> set df. PlayerName (row r) \<noteq> p" by (simp add: p handicap_of_fields)
    then have f: "form_of (filter (\<lambda>r. PlayerName (row r) = p) (rated_df df)) = None"
      by (rule no_rounds_no_form)
    show "form_index e = None \<and> handicap e = None
           \<and> status e = ''No handicap yet (insufficient rated rounds)''"
      unfolding p using f handicap_of_None [OF f] by (simp add: handicap_of_fields)
  qed
  from a b c d l e show ?thesis by (intro conjI)
qed

theorem one_entry_per_tracked_player_witness:
  "handicap_of sample_df ''Bucis'' \<in> set (handicaps sample_df)
   \<and> list_all (\<lambda>r. PlayerName (row r) \<noteq> ''Bucis'') sample_df
   \<and> h_player (handicap_of sample_df ''Bucis'') = ''Bucis''
   \<and> form_index (handicap_of sample_df ''Bucis'') = None
   \<and> handicap (handicap_of sample_df ''Bucis'') = None
   \<and> status (handicap_of sample_df ''Bucis'') = ''No handicap yet (insufficient rated rounds)''"
proof -
  have t: "''Bucis'' \<in> TRACKED_PLAYERS" by (simp add: TRACKED_PLAYERS_def)
  have m: "handicap_of sample_df ''Bucis'' \<in> set (handicaps sample_df)"
    using t by (simp add: set_handicaps)
  have n: "list_all (\<lambda>r. PlayerName (row r) \<noteq> ''Bucis'') sample_df" by code_simp
  have p: "h_player (handicap_of sample_df ''Bucis'') = ''Bucis''" by (simp add: handicap_of_fields)
  from n have "\<forall>r \<in> set sample_df. PlayerName (row r) \<noteq> h_player (handicap_of sample_df ''Bucis'')"
    by (simp only: p list_all_iff)
  with one_entry_per_tracked_player [of sample_df] m
  have "form_index (handicap_of sample_df ''Bucis'') = None
      \<and> handicap (handicap_of sample_df ''Bucis'') = None
      \<and> status (handicap_of sample_df ''Bucis'') = ''No handicap yet (insufficient rated rounds)''"
    by blast
  with m n p show ?thesis by simp
qed

subsection \<open>The rolling window\<close>

lemma set_dropna: "set (dropna xs) = {v. Some v \<in> set xs}"
  by (induction xs) (auto simp add: dropna_def map_filter_simps split: option.splits)

lemma sum_list_sorted_desc: "sum_list (sorted_desc xs) = sum_list xs"
proof -
  have "sum_list (sort xs) = sum_mset (mset (sort xs))" by (simp only: sum_mset_sum_list)
  also have "\<dots> = sum_list xs" by (simp add: sum_mset_sum_list)
  finally show ?thesis by (simp add: sorted_desc_def)
qed

lemma length_sorted_desc: "length (sorted_desc xs) = length xs"
  by (simp add: sorted_desc_def)

lemma form_of_window:
  "form_of (filter (\<lambda>r. PlayerName (row r) = p) (rated_df df))
   = (if length (window_ratings df p) < HANDICAP_MIN_ROUNDS then None
      else Some (sum_list (take HANDICAP_BEST (sorted_desc (window_ratings df p)))
                 / of_nat (length (take HANDICAP_BEST (sorted_desc (window_ratings df p))))))"
  by (simp add: form_of_def window_ratings_def Let_def)

lemma window_nonempty_key:
  assumes "window_ratings df p \<noteq> []"
  shows "p \<in> set (group_keys (\<lambda>r. PlayerName (row r)) (rated_df df))"
proof -
  have "filter (\<lambda>r. PlayerName (row r) = p) (rated_df df) \<noteq> []"
  proof
    assume "filter (\<lambda>r. PlayerName (row r) = p) (rated_df df) = []"
    then have "window_ratings df p = []"
      by (simp add: window_ratings_def last20_def dropna_def map_filter_simps)
    with assms show False by simp
  qed
  then obtain r where "r \<in> set (rated_df df)" "PlayerName (row r) = p"
    by (auto simp add: filter_empty_conv)
  then show ?thesis by (auto simp add: set_group_keys)
qed

lemma reference_defined:
  assumes "window_ratings df p \<noteq> []"
    and "form_of (filter (\<lambda>r. PlayerName (row r) = p) (rated_df df)) = Some f"
  shows "reference df \<noteq> None"
proof -
  have "(p, Some f) \<in> set (player_form df)"
    using window_nonempty_key [OF assms(1)] assms(2) by (auto simp add: player_form_def)
  then have "Some f \<in> set (map snd (player_form df))" by force
  then have "f \<in> set (dropna (map snd (player_form df)))" by (simp add: set_dropna)
  then have "dropna (map snd (player_form df)) \<noteq> []" by auto
  then show ?thesis by (simp add: reference_def Let_def)
qed

lemma handicap_of_OK:
  assumes "form_of (filter (\<lambda>r. PlayerName (row r) = p) (rated_df df)) = Some f"
    and "reference df = Some ref"
  shows "handicap (handicap_of df p)
         = Some (max (- HANDICAP_CAP) (min HANDICAP_CAP (round_half ((ref - f) / HANDICAP_POINTS_PER_STROKE))))"
    "status (handicap_of df p) = ''OK''"
  using assms by (simp_all add: handicap_of_def form_lookup Let_def)

text \<open>
  Claim C6. The rolling window of a player holds the ratings of the player's 20 most recent
  rated rounds at most. When it holds fewer than \<^verbatim>\<open>HANDICAP_MIN_ROUNDS\<close> = 5 ratings, the
  entry of the player has a null handicap, a null form index and the status of insufficient
  rounds; the entry is a value of the table and nothing is raised. With exactly 5 ratings the
  form index is defined, as the mean of the five; and from 5 ratings on the form index and
  the handicap are defined and the status is OK.
\<close>

theorem insufficient_rounds:
  "HANDICAP_MIN_ROUNDS = 5
   \<and> length (window_ratings df p) \<le> 20
   \<and> (length (window_ratings df p) < 5 \<longrightarrow>
         handicap (handicap_of df p) = None \<and> form_index (handicap_of df p) = None
         \<and> status (handicap_of df p) = ''No handicap yet (insufficient rated rounds)'')
   \<and> (length (window_ratings df p) = 5 \<longrightarrow>
         form_index (handicap_of df p) = Some (sum_list (window_ratings df p) / 5))
   \<and> (5 \<le> length (window_ratings df p) \<longrightarrow>
         form_index (handicap_of df p) \<noteq> None \<and> handicap (handicap_of df p) \<noteq> None
         \<and> status (handicap_of df p) = ''OK'')"
proof (intro conjI impI)
  let ?w = "window_ratings df p"
  let ?g = "filter (\<lambda>r. PlayerName (row r) = p) (rated_df df)"
  show "HANDICAP_MIN_ROUNDS = 5" by (simp add: HANDICAP_MIN_ROUNDS_def)
  have "length ?w \<le> length (last20 ?g)"
    by (simp add: window_ratings_def dropna_def map_filter_def)
  then show "length ?w \<le> 20" by (simp add: last20_def HANDICAP_WINDOW_def)
  {
    assume "length ?w < 5"
    then have f: "form_of ?g = None" by (simp add: form_of_window HANDICAP_MIN_ROUNDS_def)
    show "handicap (handicap_of df p) = None" using f by (rule handicap_of_None)
    show "form_index (handicap_of df p) = None" using f by (simp add: handicap_of_fields)
    show "status (handicap_of df p) = ''No handicap yet (insufficient rated rounds)''"
      using f by (rule handicap_of_None)
  }
  {
    assume l: "length ?w = 5"
    have t: "take HANDICAP_BEST (sorted_desc ?w) = sorted_desc ?w"
      using l by (simp add: HANDICAP_BEST_def length_sorted_desc)
    show "form_index (handicap_of df p) = Some (sum_list ?w / 5)"
      using l by (simp add: handicap_of_fields form_of_window t HANDICAP_MIN_ROUNDS_def
          sum_list_sorted_desc length_sorted_desc)
  }
  {
    assume l: "5 \<le> length ?w"
    then obtain f where f: "form_of ?g = Some f" by (simp add: form_of_window HANDICAP_MIN_ROUNDS_def)
    from l have "?w \<noteq> []" by auto
    from reference_defined [OF this f] obtain ref where r: "reference df = Some ref" by auto
    show "form_index (handicap_of df p) \<noteq> None" using f by (simp add: handicap_of_fields)
    show "handicap (handicap_of df p) \<noteq> None" using handicap_of_OK [OF f r] by simp
    show "status (handicap_of df p) = ''OK''" using handicap_of_OK [OF f r] by simp
  }
qed

theorem insufficient_rounds_witness:
  "length (window_ratings sample_df ''Bucis'') < 5
   \<and> handicap (handicap_of sample_df ''Bucis'') = None
   \<and> form_index (handicap_of sample_df ''Bucis'') = None
   \<and> status (handicap_of sample_df ''Bucis'') = ''No handicap yet (insufficient rated rounds)''
   \<and> length (window_ratings sample_df ''Miza'') = 5
   \<and> form_index (handicap_of sample_df ''Miza'') = Some 1000
   \<and> handicap (handicap_of sample_df ''Miza'') \<noteq> None
   \<and> status (handicap_of sample_df ''Miza'') = ''OK''"
proof -
  have b: "window_ratings sample_df ''Bucis'' = []" by code_simp
  have m: "window_ratings sample_df ''Miza'' = [1000, 1000, 1000, 1000, 1000]" by code_simp
  have s: "sum_list (window_ratings sample_df ''Miza'') / 5 = 1000" by (simp add: m)
  show ?thesis
    using insufficient_rounds [of sample_df "''Bucis''"] insufficient_rounds [of sample_df "''Miza''"] s
    by (simp add: b m)
qed

subsection \<open>The reference rating\<close>

lemma normalize_tracked:
  assumes "normalize E rows = Inr df" "n \<in> set df"
  shows "PlayerName (row n) \<in> TRACKED_PLAYERS"
proof -
  from assms(2) have "row n \<in> set (map row df)" by simp
  then show ?thesis by (simp only: normalize_rows [OF assms(1)] set_filter mem_Collect_eq)
qed

lemma dropna_single:
  assumes "distinct ks" "p \<in> set ks" "g p = Some f" "\<forall>k \<in> set ks. k \<noteq> p \<longrightarrow> g k = None"
  shows "dropna (map g ks) = [f]"
  using assms
proof (induction ks)
  case Nil
  then show ?case by simp
next
  case (Cons k ks)
  show ?case
  proof (cases "k = p")
    case True
    then have "\<forall>k \<in> set ks. g k = None" using Cons.prems by auto
    then have "dropna (map g ks) = []"
      by (induction ks) (simp_all add: dropna_def)
    then show ?thesis using True Cons.prems(3) by (simp add: dropna_def)
  next
    case False
    then have "dropna (map g ks) = [f]" using Cons by auto
    moreover have "g k = None" using False Cons.prems(4) by simp
    ultimately show ?thesis by (simp add: dropna_def)
  qed
qed

lemma round_half_0: "round_half 0 = 0"
  by (simp add: round_half_def py_round_def)

lemma distinct_group_keys: "distinct (group_keys f xs)"
  by (simp add: group_keys_def)

text \<open>
  Claim C9. The data frame holds rows of tracked players only (the filter of \<^verbatim>\<open>main\<close>
  sees to it). If one tracked player has a defined form index and every other tracked player
  has none, then the reference rating is that player's own form index, and the player's
  handicap is 0.
\<close>

theorem single_form_is_reference:
  assumes "\<forall>r \<in> set df. PlayerName (row r) \<in> TRACKED_PLAYERS"
    and "p \<in> TRACKED_PLAYERS"
    and "form_index (handicap_of df p) = Some f"
    and "\<forall>q \<in> TRACKED_PLAYERS. q \<noteq> p \<longrightarrow> form_index (handicap_of df q) = None"
  shows "reference df = Some f
       \<and> reference_rating (handicap_of df p) = Some f
       \<and> handicap (handicap_of df p) = Some 0
       \<and> status (handicap_of df p) = ''OK''"
proof -
  let ?form = "\<lambda>q. form_of (filter (\<lambda>r. PlayerName (row r) = q) (rated_df df))"
  let ?ks = "group_keys (\<lambda>r. PlayerName (row r)) (rated_df df)"
  have fp: "?form p = Some f" using assms(3) by (simp add: handicap_of_fields)
  have pk: "p \<in> set ?ks"
  proof (rule ccontr)
    assume "p \<notin> set ?ks"
    then have "filter (\<lambda>r. PlayerName (row r) = p) (rated_df df) = []"
      by (auto simp add: set_group_keys filter_empty_conv)
    then show False using fp by (simp add: form_of_Nil)
  qed
  have tk: "set ?ks \<subseteq> TRACKED_PLAYERS"
    using assms(1) by (auto simp add: set_group_keys rated_df_def)
  have others: "\<forall>k \<in> set ?ks. k \<noteq> p \<longrightarrow> ?form k = None"
  proof (intro ballI impI)
    fix k assume "k \<in> set ?ks" "k \<noteq> p"
    then have "form_index (handicap_of df k) = None" using tk assms(4) by blast
    then show "?form k = None" by (simp add: handicap_of_fields)
  qed
  have "map snd (player_form df) = map ?form ?ks"
    by (simp add: player_form_def comp_def)
  then have "dropna (map snd (player_form df)) = [f]"
    using dropna_single [OF distinct_group_keys pk fp others] by simp
  then have r: "reference df = Some f" by (simp add: reference_def Let_def)
  have h: "handicap (handicap_of df p) = Some 0"
    using handicap_of_OK [OF fp r] by (simp add: round_half_0 HANDICAP_CAP_def)
  show ?thesis using r h handicap_of_OK(2) [OF fp r] by (simp add: handicap_of_fields)
qed

theorem single_form_is_reference_witness:
  "list_all (\<lambda>r. PlayerName (row r) \<in> TRACKED_PLAYERS) (take 5 sample_df)
   \<and> ''Miza'' \<in> TRACKED_PLAYERS
   \<and> form_index (handicap_of (take 5 sample_df) ''Miza'') = Some 1000
   \<and> list_all (\<lambda>q. form_index (handicap_of (take 5 sample_df) q) = None)
        [''Armygeddon'', ''Bucis'', ''Jobby'', ''Youare22'']
   \<and> reference (take 5 sample_df) = Some 1000
   \<and> reference_rating (handicap_of (take 5 sample_df) ''Miza'') = Some 1000
   \<and> handicap (handicap_of (take 5 sample_df) ''Miza'') = Some 0
   \<and> status (handicap_of (take 5 sample_df) ''Miza'') = ''OK''"
proof -
  let ?df = "take 5 sample_df"
  have a: "list_all (\<lambda>r. PlayerName (row r) \<in> TRACKED_PLAYERS) ?df" by code_simp
  have b: "form_of (filter (\<lambda>r. PlayerName (row r) = ''Miza'') (rated_df ?df)) = Some 1000"
    by code_simp
  have c: "list_all (\<lambda>q. form_of (filter (\<lambda>r. PlayerName (row r) = q) (rated_df ?df)) = None)
        [''Armygeddon'', ''Bucis'', ''Jobby'', ''Youare22'']"
    by code_simp
  have a': "\<forall>r \<in> set ?df. PlayerName (row r) \<in> TRACKED_PLAYERS"
    using a by (simp only: list_all_iff)
  have b': "form_index (handicap_of ?df ''Miza'') = Some 1000"
    using b by (simp only: handicap_of_fields)
  have c': "list_all (\<lambda>q. form_index (handicap_of ?df q) = None)
        [''Armygeddon'', ''Bucis'', ''Jobby'', ''Youare22'']"
    using c by (simp only: handicap_of_fields)
  have d: "\<forall>q \<in> TRACKED_PLAYERS. q \<noteq> ''Miza'' \<longrightarrow> form_index (handicap_of ?df q) = None"
    using c' by (simp add: TRACKED_PLAYERS_def)
  from single_form_is_reference [OF a' Miza_tracked b' d]
  show ?thesis using a b' c' Miza_tracked by simp
qed

end
